theory Spec2Isabelle
  imports
    Main
    "HOL-Library.Word"
    "HOL-Library.AList"
    "HOL-Library.Char_ord"
    "HOL-Library.List_Lexorder"
    "HOL-Library.Sublist"
begin

section \<open>The reservation store of reservebot (data/redis.go)\<close>

text \<open>
  The store keeps two JSON documents in a key-value backend: the resources, a mapping
  from derived key to resource, and the reservations, one sequence for all resources.
  Every operation reads the documents it needs, works on the decoded copies and
  writes a document back with a set. Decoded values are fresh copies: an assignment to a
  field of a decoded resource or reservation changes what is persisted only when the
  value is written back afterwards. The model makes this explicit: a document is the
  value it decodes to, and every operation is a function from the backend state to a
  result and the next backend state. Encoding and decoding do not fail on the documents
  the store writes, so the panics of \<open>json.Marshal\<close> and \<open>json.Unmarshal\<close> have no
  branch; the panics after a failed call of the backend have.

  The store's mutex is not modelled: the functions below are the sequential behaviour of
  one call.
\<close>

subsection \<open>Entities\<close>

text \<open>
  A \<open>time.Time\<close> is modelled as its distance in nanoseconds from the zero time, an
  unbounded integer; the zero value is 0 and \<open>Before\<close> is \<open><\<close>.
\<close>

type_synonym time = int

text \<open>Of a user the store reads the ID only.\<close>

record User =
  ID :: string

record Resource =
  Name :: string
  Env :: string
  LastActivity :: time

record Reservation =
  User :: User
  Resource :: Resource
  Time :: time

record Queue =
  QResource :: Resource
  Reservations :: "Reservation list"

datatype error = AlreadyInQueue | NotInQueue | ResourceDoesNotExist | EnvDoesNotExist

text \<open>
  The function \<open>models.ResourceKey\<close>, which composes the derived key of a resource from a
  name and an env, is not in the source files. It is a parameter \<open>rk\<close> of every operation
  that uses it, and every property below holds for every such function.
\<close>

type_synonym keyfn = "string \<Rightarrow> string \<Rightarrow> string"

text \<open>
  Modelled from the spec: the method \<open>Key\<close> of a resource (package models, not in the
  source files). The spec says that the derived key of a resource is the deterministic
  composition of its name and its env.
\<close>

definition Key :: "keyfn \<Rightarrow> Resource \<Rightarrow> string" where
  "Key rk r = rk (Name r) (Env r)"

text \<open>
  Modelled from the spec: one composition the spec gives as an example, \<open>name/env\<close>, or the
  name alone when the env is empty. It is used for concrete runs only.
\<close>

definition slashKey :: keyfn where
  "slashKey name env = (if env = [] then name else name @ ''/'' @ env)"

text \<open>
  Modelled from the spec: \<open>HasReservations\<close> of a queue (package models) holds when the
  sequence of its reservations is not empty.
\<close>

definition HasReservations :: "Queue \<Rightarrow> bool" where
  "HasReservations q = (Reservations q \<noteq> [])"

subsection \<open>The backend\<close>

text \<open>
  The state of the backend: the value stored under each of the two keys (\<open>None\<close> when the
  key was never written), and a schedule of failures. Each call of the client (a get or
  a set) takes the next entry of the schedule; \<open>True\<close> makes that call return an error.
  An empty schedule means that no further call fails. A Go map is an association list
  with lookup \<open>map_of\<close>, assignment \<open>AList.update\<close> and \<open>AList.delete\<close>.
\<close>

record Redis =
  reservations_doc :: "Reservation list option"
  resources_doc :: "(string \<times> Resource) list option"
  faults :: "bool list"

definition call_fails :: "Redis \<Rightarrow> bool \<times> Redis" where
  "call_fails s = (case faults s of [] \<Rightarrow> (False, s) | f # fs \<Rightarrow> (f, s\<lparr>faults := fs\<rparr>))"

text \<open>A get answers \<open>None\<close> for the error (the key is missing, or the call failed).\<close>

definition rdb_Get_reservations :: "Redis \<Rightarrow> Reservation list option \<times> Redis" where
  "rdb_Get_reservations s =
     (case call_fails s of (f, s') \<Rightarrow> (if f then None else reservations_doc s', s'))"

definition rdb_Get_resources :: "Redis \<Rightarrow> (string \<times> Resource) list option \<times> Redis" where
  "rdb_Get_resources s =
     (case call_fails s of (f, s') \<Rightarrow> (if f then None else resources_doc s', s'))"

text \<open>A set answers \<open>True\<close> for the error; a failed set stores nothing.\<close>

definition rdb_Set_reservations :: "Reservation list \<Rightarrow> Redis \<Rightarrow> bool \<times> Redis" where
  "rdb_Set_reservations d s =
     (case call_fails s of (f, s') \<Rightarrow>
        if f then (True, s') else (False, s'\<lparr>reservations_doc := Some d\<rparr>))"

definition rdb_Set_resources :: "(string \<times> Resource) list \<Rightarrow> Redis \<Rightarrow> bool \<times> Redis" where
  "rdb_Set_resources d s =
     (case call_fails s of (f, s') \<Rightarrow>
        if f then (True, s') else (False, s'\<lparr>resources_doc := Some d\<rparr>))"

subsection \<open>Calls that may panic\<close>

text \<open>
  A call either panics or returns a value; in both cases the backend is left in some
  state. A domain error is a returned value (\<open>Inl\<close>), a panic is not.
\<close>

datatype 'a exec = Panic | Done 'a

type_synonym 'a action = "Redis \<Rightarrow> 'a exec \<times> Redis"

definition ret :: "'a \<Rightarrow> 'a action" where
  "ret x s = (Done x, s)"

definition panic :: "'a action" where
  "panic s = (Panic, s)"

definition seq :: "'a action \<Rightarrow> ('a \<Rightarrow> 'b action) \<Rightarrow> 'b action" where
  "seq m f s = (case m s of (Panic, s') \<Rightarrow> (Panic, s') | (Done x, s') \<Rightarrow> f x s')"

subsection \<open>The adapter: reading and writing the two documents\<close>

definition SetRedisReservations :: "Reservation list \<Rightarrow> Reservation list action" where
  "SetRedisReservations res s =
     (case rdb_Set_reservations res s of
        (True, s') \<Rightarrow> (Panic, s')
      | (False, s') \<Rightarrow> (Done res, s'))"

definition GetRedisReservations :: "Reservation list action" where
  "GetRedisReservations s =
     (case rdb_Get_reservations s of
        (Some str, s1) \<Rightarrow> (Done str, s1)
      | (None, s1) \<Rightarrow>
          seq (SetRedisReservations [])
            (\<lambda>_ s2. case rdb_Get_reservations s2 of
                       (Some str, s3) \<Rightarrow> (Done str, s3)
                     | (None, s3) \<Rightarrow> (Panic, s3)) s1)"

definition SetRedisResources :: "(string \<times> Resource) list \<Rightarrow> (string \<times> Resource) list action" where
  "SetRedisResources res s =
     (case rdb_Set_resources res s of
        (True, s') \<Rightarrow> (Panic, s')
      | (False, s') \<Rightarrow> (Done res, s'))"

definition GetRedisResources :: "(string \<times> Resource) list action" where
  "GetRedisResources s =
     (case rdb_Get_resources s of
        (Some str, s1) \<Rightarrow> (Done str, s1)
      | (None, s1) \<Rightarrow>
          seq (SetRedisResources [])
            (\<lambda>_ s2. case rdb_Get_resources s2 of
                       (Some str, s3) \<Rightarrow> (Done str, s3)
                     | (None, s3) \<Rightarrow> (Panic, s3)) s1)"

subsection \<open>Resources\<close>

text \<open>
  \<open>GetResource\<close> answers the resource stored under the key of name and env, \<open>None\<close> for
  Go's nil. With \<open>create\<close> a missing resource is made, with the zero time as its last
  activity, put into the map and the map written back.
\<close>

definition GetResource :: "keyfn \<Rightarrow> string \<Rightarrow> string \<Rightarrow> bool \<Rightarrow> Resource option action" where
  "GetResource rk name env create =
     seq GetRedisResources (\<lambda>resources.
       let key = rk name env in
       case map_of resources key of
         Some r \<Rightarrow> ret (Some r)
       | None \<Rightarrow>
           if create then
             let r = \<lparr>Name = name, Env = env, LastActivity = 0\<rparr> in
             seq (SetRedisResources (AList.update (Key rk r) r resources)) (\<lambda>_. ret (Some r))
           else ret None)"

text \<open>
  \<open>Create\<close> stamps the resource it got from \<open>GetResource\<close>. That resource is a decoded
  copy (or the new resource, already written), and nothing is written after the stamp:
  the stamped copy \<open>r'\<close> is dropped. A nil resource would panic at the assignment.
\<close>

definition Create :: "keyfn \<Rightarrow> string \<Rightarrow> string \<Rightarrow> time \<Rightarrow> (error + unit) action" where
  "Create rk name env now =
     seq (GetResource rk name env True) (\<lambda>r.
       case r of
         None \<Rightarrow> panic
       | Some r \<Rightarrow> let r' = r\<lparr>LastActivity := now\<rparr> in ret (Inr ()))"

subsection \<open>Reserve\<close>

text \<open>
  The source reads the clock twice: \<open>t1\<close> for the time of the reservation, \<open>t2\<close> for the
  last activity of the resource. The new reservation points to the resource \<open>r\<close>, which
  is stamped before the reservations are encoded, so the reservation is written with
  the stamped resource inside. The resources document is not written.
\<close>

definition Reserve :: "keyfn \<Rightarrow> User \<Rightarrow> string \<Rightarrow> string \<Rightarrow> time \<Rightarrow> time \<Rightarrow> (error + unit) action" where
  "Reserve rk u name env t1 t2 =
     seq (GetResource rk name env True) (\<lambda>r.
       case r of
         None \<Rightarrow> panic
       | Some r \<Rightarrow>
           seq GetRedisReservations (\<lambda>reservations.
             if list_ex (\<lambda>res. ID (User res) = ID u \<and> Key rk (Resource res) = Key rk r) reservations
             then ret (Inl AlreadyInQueue)
             else
               let r' = r\<lparr>LastActivity := t2\<rparr>;
                   res = \<lparr>User = u, Resource = r', Time = t1\<rparr>
               in seq (SetRedisReservations (reservations @ [res])) (\<lambda>_. ret (Inr ()))))"

definition GetReservation :: "keyfn \<Rightarrow> User \<Rightarrow> string \<Rightarrow> string \<Rightarrow> Reservation option action" where
  "GetReservation rk u name env =
     seq (GetResource rk name env False) (\<lambda>r.
       case r of
         None \<Rightarrow> ret None
       | Some r \<Rightarrow>
           seq GetRedisReservations (\<lambda>reservations.
             ret (find (\<lambda>res. ID (User res) = ID u \<and> Key rk (Resource res) = Key rk r) reservations)))"

subsection \<open>Remove and GetPosition\<close>

text \<open>
  The search loop of \<open>Remove\<close>: \<open>i\<close> is the index in the sequence, \<open>pos\<close> counts the
  reservations of the resource seen so far. It answers the index and the count at the
  first reservation of the user for the resource, \<open>None\<close> when the index stays -1.
\<close>

fun Remove_scan :: "keyfn \<Rightarrow> User \<Rightarrow> Resource \<Rightarrow> nat \<Rightarrow> nat \<Rightarrow> Reservation list \<Rightarrow> (nat \<times> nat) option" where
  "Remove_scan rk u r i pos [] = None"
| "Remove_scan rk u r i pos (res # rest) =
     (if Key rk (Resource res) = Key rk r then
        (if ID (User res) = ID u then Some (i, pos + 1)
         else Remove_scan rk u r (i + 1) (pos + 1) rest)
      else Remove_scan rk u r (i + 1) pos rest)"

text \<open>The second loop of \<open>Remove\<close>: the first reservation of the resource gets the time.\<close>

fun stamp_head :: "keyfn \<Rightarrow> Resource \<Rightarrow> time \<Rightarrow> Reservation list \<Rightarrow> Reservation list" where
  "stamp_head rk r t [] = []"
| "stamp_head rk r t (res # rest) =
     (if Key rk (Resource res) = Key rk r then res\<lparr>Time := t\<rparr> # rest
      else res # stamp_head rk r t rest)"

text \<open>
  \<open>Remove\<close> reads the clock in the second loop (\<open>t1\<close>, at most once) and for the last
  activity (\<open>t2\<close>). The resource \<open>r\<close> is a decoded copy from the resources document and
  that document is not written: the stamped copy \<open>r'\<close> is dropped.
\<close>

definition Remove :: "keyfn \<Rightarrow> User \<Rightarrow> string \<Rightarrow> string \<Rightarrow> time \<Rightarrow> time \<Rightarrow> (error + unit) action" where
  "Remove rk u name env t1 t2 =
     seq (GetResource rk name env False) (\<lambda>r.
       case r of
         None \<Rightarrow> ret (Inl ResourceDoesNotExist)
       | Some r \<Rightarrow>
           seq GetRedisReservations (\<lambda>reservations.
             case Remove_scan rk u r 0 0 reservations of
               None \<Rightarrow> ret (Inl NotInQueue)
             | Some (idx, pos) \<Rightarrow>
                 let reservations1 = take idx reservations @ drop (idx + 1) reservations;
                     reservations2 = (if pos = 1 then stamp_head rk r t1 reservations1
                                      else reservations1);
                     r' = r\<lparr>LastActivity := t2\<rparr>
                 in seq (SetRedisReservations reservations2) (\<lambda>_. ret (Inr ()))))"

text \<open>The loop of \<open>GetPosition\<close>: \<open>None\<close> when \<open>inQueue\<close> stays false.\<close>

fun GetPosition_scan :: "keyfn \<Rightarrow> User \<Rightarrow> Resource \<Rightarrow> nat \<Rightarrow> Reservation list \<Rightarrow> nat option" where
  "GetPosition_scan rk u r pos [] = None"
| "GetPosition_scan rk u r pos (res # rest) =
     (if Key rk (Resource res) = Key rk r then
        (if ID (User res) = ID u then Some (pos + 1)
         else GetPosition_scan rk u r (pos + 1) rest)
      else GetPosition_scan rk u r pos rest)"

definition GetPosition :: "keyfn \<Rightarrow> User \<Rightarrow> string \<Rightarrow> string \<Rightarrow> (error + nat) action" where
  "GetPosition rk u name env =
     seq (GetResource rk name env False) (\<lambda>r.
       case r of
         None \<Rightarrow> ret (Inl ResourceDoesNotExist)
       | Some r \<Rightarrow>
           seq GetRedisReservations (\<lambda>reservations.
             case GetPosition_scan rk u r 0 reservations of
               None \<Rightarrow> ret (Inl NotInQueue)
             | Some pos \<Rightarrow> ret (Inr pos)))"

subsection \<open>Deleting from a slice while ranging over it\<close>

text \<open>
  \<open>RemoveResource\<close> and \<open>RemoveEnv\<close> delete from the reservations inside a range loop over
  them:
  \<^verbatim>\<open>for idx, res := range reservations {
      if <res matches> {
          reservations = append(reservations[:idx], reservations[idx+1:]...)
      } }\<close>
  Go evaluates the range expression once: the loop runs over the indices of the
  original slice and reads \<open>res\<close> from the backing array at each step. The append
  writes into the same backing array (the capacity suffices): it moves the elements
  after \<open>idx\<close> of the current slice one place down and shortens the current slice by
  one; the array keeps its old last elements behind the end of the slice. The slice
  expression \<open>reservations[idx+1:]\<close> panics when \<open>idx + 1\<close> exceeds the length of the
  current slice.

  The state of the loop is the backing array (as long as the original slice), the
  length of the current slice, and whether a reservation matched (the flag \<open>exists\<close> of
  \<open>RemoveEnv\<close>).
\<close>

definition delete_step ::
  "(Reservation \<Rightarrow> bool) \<Rightarrow> nat \<Rightarrow> (Reservation list \<times> nat \<times> bool) exec \<Rightarrow> (Reservation list \<times> nat \<times> bool) exec" where
  "delete_step P idx st =
     (case st of
        Panic \<Rightarrow> Panic
      | Done (arr, n, hit) \<Rightarrow>
          if P (arr ! idx) then
            (if idx + 1 \<le> n
             then Done (take idx arr @ drop (idx + 1) (take n arr) @ drop (n - 1) arr, n - 1, True)
             else Panic)
          else Done (arr, n, hit))"

definition delete_in_range :: "(Reservation \<Rightarrow> bool) \<Rightarrow> Reservation list \<Rightarrow> (Reservation list \<times> bool) exec" where
  "delete_in_range P reservations =
     (case fold (delete_step P) [0..<length reservations]
             (Done (reservations, length reservations, False)) of
        Panic \<Rightarrow> Panic
      | Done (arr, n, hit) \<Rightarrow> Done (take n arr, hit))"

subsection \<open>RemoveResource and RemoveEnv\<close>

definition RemoveResource :: "keyfn \<Rightarrow> string \<Rightarrow> string \<Rightarrow> (error + unit) action" where
  "RemoveResource rk name env =
     seq (GetResource rk name env False) (\<lambda>r.
       case r of
         None \<Rightarrow> ret (Inl ResourceDoesNotExist)
       | Some r \<Rightarrow>
           seq GetRedisReservations (\<lambda>reservations.
           seq GetRedisResources (\<lambda>resources.
             case delete_in_range (\<lambda>res. Key rk (Resource res) = Key rk r) reservations of
               Panic \<Rightarrow> panic
             | Done (reservations', _) \<Rightarrow>
                 seq (SetRedisReservations reservations') (\<lambda>_.
                 seq (SetRedisResources (AList.delete (Key rk r) resources)) (\<lambda>_.
                   ret (Inr ()))))))"

text \<open>
  The second loop of \<open>RemoveEnv\<close> ranges over the map and deletes the entries of the env.
  Go allows deleting during the iteration, and the order of the iteration does not
  matter for the result.
\<close>

definition delete_env :: "string \<Rightarrow> (string \<times> Resource) list \<Rightarrow> bool \<Rightarrow> (string \<times> Resource) list \<times> bool" where
  "delete_env env resources hit =
     fold (\<lambda>(k, res) (m, h). if Env res = env then (AList.delete k m, True) else (m, h))
       resources (resources, hit)"

text \<open>The parameter \<open>name\<close> of \<open>RemoveEnv\<close> is not used by the source.\<close>

definition RemoveEnv :: "string \<Rightarrow> string \<Rightarrow> (error + unit) action" where
  "RemoveEnv name env =
     seq GetRedisReservations (\<lambda>reservations.
     seq GetRedisResources (\<lambda>resources.
       case delete_in_range (\<lambda>res. Env (Resource res) = env) reservations of
         Panic \<Rightarrow> panic
       | Done (reservations', hit1) \<Rightarrow>
           (case delete_env env resources hit1 of
              (resources', hit2) \<Rightarrow>
                if \<not> hit2 then ret (Inl EnvDoesNotExist)
                else
                  seq (SetRedisReservations reservations') (\<lambda>_.
                  seq (SetRedisResources resources') (\<lambda>_.
                    ret (Inr ()))))))"

subsection \<open>Queries\<close>

text \<open>
  \<open>GetResources\<close> sorts the keys of the map and answers the resources in that order; it
  writes the map back as it read it.
\<close>

definition GetResources :: "Resource list action" where
  "GetResources =
     seq GetRedisResources (\<lambda>resources.
       let keys = sort (map fst resources);
           rs = List.map_filter (map_of resources) keys
       in seq (SetRedisResources resources) (\<lambda>_. ret rs))"

definition GetResourcesForEnv :: "string \<Rightarrow> Resource list action" where
  "GetResourcesForEnv env =
     seq GetRedisResources (\<lambda>resources.
       let keys = sort (map fst (filter (\<lambda>(k, r). Env r = env) resources));
           rs = List.map_filter (map_of resources) keys
       in ret rs)"

definition GetQueueForResource :: "keyfn \<Rightarrow> string \<Rightarrow> string \<Rightarrow> (error + Queue) action" where
  "GetQueueForResource rk name env =
     seq (GetResource rk name env False) (\<lambda>r.
       case r of
         None \<Rightarrow> ret (Inl ResourceDoesNotExist)
       | Some r \<Rightarrow>
           seq GetRedisReservations (\<lambda>reservations.
             ret (Inr \<lparr>QResource = r,
                       Reservations = filter (\<lambda>res. Key rk (Resource res) = Key rk r) reservations\<rparr>)))"

text \<open>
  \<open>GetQueues\<close> and \<open>GetQueuesForEnv\<close> drop the error of \<open>GetQueueForResource\<close> and keep the
  queue, which is nil (\<open>None\<close>) when there was an error.
\<close>

fun GetQueues_loop :: "keyfn \<Rightarrow> Resource list \<Rightarrow> Queue option list \<Rightarrow> Queue option list action" where
  "GetQueues_loop rk [] acc = ret acc"
| "GetQueues_loop rk (r # rest) acc =
     seq (GetQueueForResource rk (Name r) (Env r)) (\<lambda>q.
       GetQueues_loop rk rest (acc @ [case q of Inl e \<Rightarrow> None | Inr q \<Rightarrow> Some q]))"

definition GetQueues :: "keyfn \<Rightarrow> Queue option list action" where
  "GetQueues rk = seq GetResources (\<lambda>resources. GetQueues_loop rk resources [])"

fun GetQueuesForEnv_loop ::
  "keyfn \<Rightarrow> Resource list \<Rightarrow> (string \<times> Queue option) list \<Rightarrow> (string \<times> Queue option) list action" where
  "GetQueuesForEnv_loop rk [] acc = ret acc"
| "GetQueuesForEnv_loop rk (r # rest) acc =
     seq (GetQueueForResource rk (Name r) (Env r)) (\<lambda>q.
       GetQueuesForEnv_loop rk rest
         (AList.update (Name r) (case q of Inl e \<Rightarrow> None | Inr q \<Rightarrow> Some q) acc))"

definition GetQueuesForEnv :: "keyfn \<Rightarrow> string \<Rightarrow> (string \<times> Queue option) list action" where
  "GetQueuesForEnv rk env =
     seq (GetResourcesForEnv env) (\<lambda>resources. GetQueuesForEnv_loop rk resources [])"

definition GetReservationForResource :: "keyfn \<Rightarrow> string \<Rightarrow> string \<Rightarrow> (error + Reservation option) action" where
  "GetReservationForResource rk name env =
     seq (GetResource rk name env False) (\<lambda>r.
       case r of
         None \<Rightarrow> ret (Inl ResourceDoesNotExist)
       | Some r \<Rightarrow>
           seq GetRedisReservations (\<lambda>reservations.
             ret (Inr (find (\<lambda>res. Key rk (Resource res) = Key rk r) reservations))))"

text \<open>
  \<open>GetAllUsersInQueues\<close> collects the users in a map by ID and answers the values of the
  map. Go leaves the order of the answer open; the model answers them in the order of
  the association list.
\<close>

definition GetAllUsersInQueues :: "User list action" where
  "GetAllUsersInQueues =
     seq GetRedisReservations (\<lambda>reservations.
       let all = fold (\<lambda>r m. AList.update (ID (User r)) (User r) m) reservations []
       in ret (map snd all))"

definition ClearQueueForResource :: "keyfn \<Rightarrow> string \<Rightarrow> string \<Rightarrow> time \<Rightarrow> (error + unit) action" where
  "ClearQueueForResource rk name env now =
     seq (GetResource rk name env False) (\<lambda>r.
       case r of
         None \<Rightarrow> ret (Inl ResourceDoesNotExist)
       | Some r \<Rightarrow>
           seq GetRedisReservations (\<lambda>reservations.
             let filtered = filter (\<lambda>res. Key rk (Resource res) \<noteq> Key rk r) reservations;
                 r' = r\<lparr>LastActivity := now\<rparr>
             in seq (SetRedisReservations filtered) (\<lambda>_. ret (Inr ()))))"

subsection \<open>Pruning\<close>

text \<open>
  \<open>time.Now().Add(-time.Duration(hours) * time.Hour)\<close>: a duration is a signed 64-bit
  count of nanoseconds, an hour is 3600000000000 of them, and the product wraps around.
\<close>

definition oldestTime :: "time \<Rightarrow> int \<Rightarrow> time" where
  "oldestTime now hours = now + sint (- (word_of_int hours :: 64 word) * 3600000000000)"

text \<open>
  The loop of \<open>PruneInactiveResources\<close>. An error of \<open>GetQueueForResource\<close> is logged and
  the queue is nil; \<open>HasReservations\<close> on it is a nil dereference. An error of
  \<open>RemoveResource\<close> is logged and the loop goes on.
\<close>

fun Prune_loop :: "keyfn \<Rightarrow> time \<Rightarrow> Resource list \<Rightarrow> unit action" where
  "Prune_loop rk oldest [] = ret ()"
| "Prune_loop rk oldest (r # rest) =
     seq (GetQueueForResource rk (Name r) (Env r)) (\<lambda>q.
       case q of
         Inl e \<Rightarrow> panic
       | Inr q \<Rightarrow>
           if HasReservations q then Prune_loop rk oldest rest
           else if LastActivity r < oldest then
             seq (RemoveResource rk (Name r) (Env r)) (\<lambda>_. Prune_loop rk oldest rest)
           else Prune_loop rk oldest rest)"

definition PruneInactiveResources :: "keyfn \<Rightarrow> int \<Rightarrow> time \<Rightarrow> (error + unit) action" where
  "PruneInactiveResources rk hours now =
     seq GetResources (\<lambda>resources.
       seq (Prune_loop rk (oldestTime now hours) resources) (\<lambda>_. ret (Inr ())))"

section \<open>Notions used by the properties\<close>

subsection \<open>The persisted collections\<close>

text \<open>
  The collection a document holds: what a get of the adapter returns for it when the
  backend works. A document that was never written holds the empty collection.
\<close>

definition stored_reservations :: "Redis \<Rightarrow> Reservation list" where
  "stored_reservations s = (case reservations_doc s of None \<Rightarrow> [] | Some l \<Rightarrow> l)"

definition stored_resources :: "Redis \<Rightarrow> (string \<times> Resource) list" where
  "stored_resources s = (case resources_doc s of None \<Rightarrow> [] | Some m \<Rightarrow> m)"

text \<open>Whether the \<open>i\<close>-th call of the client from now on fails (the first one is call 0).\<close>

definition fails_at :: "Redis \<Rightarrow> nat \<Rightarrow> bool" where
  "fails_at s i = (i < length (faults s) \<and> faults s ! i)"

text \<open>The queue of a key: the reservations whose resource has that key, in stored order.\<close>

definition queue_of :: "keyfn \<Rightarrow> string \<Rightarrow> Reservation list \<Rightarrow> Reservation list" where
  "queue_of rk k l = filter (\<lambda>res. Key rk (Resource res) = k) l"

text \<open>
  The resources map is well keyed when it is a map (no key twice) and every resource is
  stored under its own derived key.
\<close>

definition well_keyed :: "keyfn \<Rightarrow> (string \<times> Resource) list \<Rightarrow> bool" where
  "well_keyed rk m = (distinct (map fst m) \<and> list_all (\<lambda>(k, r). k = Key rk r) m)"

text \<open>Single membership: no two reservations have the same user ID and resource key.\<close>

definition single_membership :: "keyfn \<Rightarrow> Reservation list \<Rightarrow> bool" where
  "single_membership rk l = distinct (map (\<lambda>res. (ID (User res), Key rk (Resource res))) l)"

subsection \<open>Sequences of calls\<close>

text \<open>
  The operations of the store (the table of operations of the spec), with their
  arguments; the clock readings of a call are arguments too.
\<close>

datatype call =
    CallGetResource string string bool
  | CallCreate string string time
  | CallReserve User string string time time
  | CallGetReservation User string string
  | CallRemove User string string time time
  | CallGetPosition User string string
  | CallRemoveResource string string
  | CallRemoveEnv string string
  | CallGetResources
  | CallGetResourcesForEnv string
  | CallGetQueueForResource string string
  | CallGetQueues
  | CallGetQueuesForEnv string
  | CallGetReservationForResource string string
  | CallGetAllUsersInQueues
  | CallClearQueueForResource string string time
  | CallPruneInactiveResources int time

text \<open>The backend state a call leaves, whether it returned or panicked.\<close>

fun after :: "keyfn \<Rightarrow> call \<Rightarrow> Redis \<Rightarrow> Redis" where
  "after rk (CallGetResource name env create) s = snd (GetResource rk name env create s)"
| "after rk (CallCreate name env now) s = snd (Create rk name env now s)"
| "after rk (CallReserve u name env t1 t2) s = snd (Reserve rk u name env t1 t2 s)"
| "after rk (CallGetReservation u name env) s = snd (GetReservation rk u name env s)"
| "after rk (CallRemove u name env t1 t2) s = snd (Remove rk u name env t1 t2 s)"
| "after rk (CallGetPosition u name env) s = snd (GetPosition rk u name env s)"
| "after rk (CallRemoveResource name env) s = snd (RemoveResource rk name env s)"
| "after rk (CallRemoveEnv name env) s = snd (RemoveEnv name env s)"
| "after rk CallGetResources s = snd (GetResources s)"
| "after rk (CallGetResourcesForEnv env) s = snd (GetResourcesForEnv env s)"
| "after rk (CallGetQueueForResource name env) s = snd (GetQueueForResource rk name env s)"
| "after rk CallGetQueues s = snd (GetQueues rk s)"
| "after rk (CallGetQueuesForEnv env) s = snd (GetQueuesForEnv rk env s)"
| "after rk (CallGetReservationForResource name env) s = snd (GetReservationForResource rk name env s)"
| "after rk CallGetAllUsersInQueues s = snd (GetAllUsersInQueues s)"
| "after rk (CallClearQueueForResource name env now) s = snd (ClearQueueForResource rk name env now s)"
| "after rk (CallPruneInactiveResources hours now) s = snd (PruneInactiveResources rk hours now s)"

text \<open>
  A run is a sequence of calls, each with the failures of the backend during that call.
  A call that panics ends where it stopped, and the next call goes on from that state.
\<close>

fun run :: "keyfn \<Rightarrow> (call \<times> bool list) list \<Rightarrow> Redis \<Rightarrow> Redis" where
  "run rk [] s = s"
| "run rk ((c, fs) # cs) s = run rk cs (after rk c (s\<lparr>faults := fs\<rparr>))"

text \<open>A backend in which nothing was written yet and no call fails.\<close>

definition fresh :: Redis where
  "fresh = \<lparr>reservations_doc = None, resources_doc = None, faults = []\<rparr>"

subsection \<open>Values for concrete runs\<close>

definition alice :: User where "alice = \<lparr>ID = ''alice''\<rparr>"
definition bob :: User where "bob = \<lparr>ID = ''bob''\<rparr>"
definition carol :: User where "carol = \<lparr>ID = ''carol''\<rparr>"

text \<open>A resource as \<open>GetResource\<close> makes it, and a reservation as \<open>Reserve\<close> writes it.\<close>

definition new_resource :: "string \<Rightarrow> string \<Rightarrow> Resource" where
  "new_resource name env = \<lparr>Name = name, Env = env, LastActivity = 0\<rparr>"

definition reservation :: "User \<Rightarrow> string \<Rightarrow> string \<Rightarrow> time \<Rightarrow> time \<Rightarrow> Reservation" where
  "reservation u name env t1 t2 =
     \<lparr>User = u, Resource = \<lparr>Name = name, Env = env, LastActivity = t2\<rparr>, Time = t1\<rparr>"

text \<open>The run of two reservations for one resource, and the state it reaches.\<close>

definition two_queued :: Redis where
  "two_queued =
     \<lparr>reservations_doc = Some [reservation alice ''db1'' ''prod'' 10 11,
                                reservation bob ''db1'' ''prod'' 20 21],
      resources_doc = Some [(''db1/prod'', new_resource ''db1'' ''prod'')],
      faults = []\<rparr>"

subsection \<open>Collections that a call did not change\<close>

text \<open>
  \<open>untouched s s'\<close>: from \<open>s\<close> to \<open>s'\<close> each document is the same, or it was never written
  and now holds the empty collection (the initialisation by the get of the adapter); in
  both cases the collections are the same.
\<close>

definition untouched :: "Redis \<Rightarrow> Redis \<Rightarrow> bool" where
  "untouched s s' =
     ((reservations_doc s' = reservations_doc s
         \<or> reservations_doc s = None \<and> reservations_doc s' = Some [])
      \<and> (resources_doc s' = resources_doc s
         \<or> resources_doc s = None \<and> resources_doc s' = Some [])
      \<and> stored_reservations s' = stored_reservations s
      \<and> stored_resources s' = stored_resources s)"

subsection \<open>Resources that pruning removes\<close>



subsection \<open>The invariant of the store\<close>

text \<open>
  No stored resource carries a last activity: the resources document is written only
  with resources as \<open>GetResource\<close> makes them.
\<close>

definition unstamped :: "(string \<times> Resource) list \<Rightarrow> bool" where
  "unstamped m = list_all (\<lambda>(k, r). LastActivity r = 0) m"

definition resources_ok :: "keyfn \<Rightarrow> (string \<times> Resource) list \<Rightarrow> bool" where
  "resources_ok rk m = (well_keyed rk m \<and> unstamped m)"

definition store_inv :: "keyfn \<Rightarrow> Redis \<Rightarrow> bool" where
  "store_inv rk s =
     (single_membership rk (stored_reservations s) \<and> resources_ok rk (stored_resources s))"

text \<open>
  \<open>keeps rk m F\<close>: from a state with the invariant, the call \<open>m\<close> ends in a state with the
  invariant, whether it returns or panics and whatever calls of the backend fail, and a
  value it returns satisfies \<open>F\<close>.
\<close>

definition keeps :: "keyfn \<Rightarrow> 'a action \<Rightarrow> ('a \<Rightarrow> bool) \<Rightarrow> bool" where
  "keeps rk m F =
     (\<forall>s. store_inv rk s \<longrightarrow>
        store_inv rk (snd (m s)) \<and> (\<forall>x. fst (m s) = Done x \<longrightarrow> F x))"

section \<open>The backend adapter\<close>

lemma call_fails_eq: "call_fails s = (fails_at s 0, s\<lparr>faults := drop 1 (faults s)\<rparr>)"
  by (cases "faults s") (simp_all add: call_fails_def fails_at_def)

lemma fails_at_simps [simp]:
  "fails_at (s\<lparr>faults := drop k (faults s)\<rparr>) i = fails_at s (i + k)"
  "fails_at (s\<lparr>reservations_doc := d\<rparr>) i = fails_at s i"
  "fails_at (s\<lparr>resources_doc := d'\<rparr>) i = fails_at s i"
  by (auto simp add: fails_at_def add.commute)

lemma GetRedisReservations_absent:
  assumes "reservations_doc s = None"
  shows "GetRedisReservations s =
    (if fails_at s 1 then (Panic, s\<lparr>faults := drop 2 (faults s)\<rparr>)
     else if fails_at s 2
     then (Panic, s\<lparr>reservations_doc := Some [], faults := drop 3 (faults s)\<rparr>)
     else (Done [], s\<lparr>reservations_doc := Some [], faults := drop 3 (faults s)\<rparr>))"
  using assms
  by (simp add: GetRedisReservations_def rdb_Get_reservations_def call_fails_eq seq_def
      SetRedisReservations_def rdb_Set_reservations_def numeral_2_eq_2 numeral_3_eq_3)

lemma GetRedisResources_absent:
  assumes "resources_doc s = None"
  shows "GetRedisResources s =
    (if fails_at s 1 then (Panic, s\<lparr>faults := drop 2 (faults s)\<rparr>)
     else if fails_at s 2
     then (Panic, s\<lparr>resources_doc := Some [], faults := drop 3 (faults s)\<rparr>)
     else (Done [], s\<lparr>resources_doc := Some [], faults := drop 3 (faults s)\<rparr>))"
  using assms
  by (simp add: GetRedisResources_def rdb_Get_resources_def call_fails_eq seq_def
      SetRedisResources_def rdb_Set_resources_def numeral_2_eq_2 numeral_3_eq_3)

text \<open>
  C9. A get of a document that was never written makes three calls of the client: the
  get that finds nothing (call 0), the set of the empty collection (call 1) and the
  second get (call 2). When the set and the second get succeed, the get of the adapter
  returns the empty collection (the empty sequence of reservations, the empty map of
  resources) and the backend holds it, written. When the second get fails, or the set
  before it, the get of the adapter panics and returns nothing.
\<close>

theorem get_of_unwritten_document:
  "(reservations_doc s = None \<and> \<not> fails_at s 1 \<and> \<not> fails_at s 2 \<longrightarrow>
      GetRedisReservations s =
        (Done [], s\<lparr>reservations_doc := Some [], faults := drop 3 (faults s)\<rparr>))
   \<and> (reservations_doc s = None \<and> (fails_at s 1 \<or> fails_at s 2) \<longrightarrow>
      fst (GetRedisReservations s) = Panic)
   \<and> (resources_doc s = None \<and> \<not> fails_at s 1 \<and> \<not> fails_at s 2 \<longrightarrow>
      GetRedisResources s =
        (Done [], s\<lparr>resources_doc := Some [], faults := drop 3 (faults s)\<rparr>))
   \<and> (resources_doc s = None \<and> (fails_at s 1 \<or> fails_at s 2) \<longrightarrow>
      fst (GetRedisResources s) = Panic)"
  by (simp add: GetRedisReservations_absent GetRedisResources_absent numeral_2_eq_2)

theorem get_of_unwritten_document_witness:
  "GetRedisReservations fresh = (Done [], fresh\<lparr>reservations_doc := Some []\<rparr>)
   \<and> fst (GetRedisReservations (fresh\<lparr>faults := [False, False, True]\<rparr>)) = Panic
   \<and> GetRedisResources fresh = (Done [], fresh\<lparr>resources_doc := Some []\<rparr>)
   \<and> fst (GetRedisResources (fresh\<lparr>faults := [False, False, True]\<rparr>)) = Panic"
  using get_of_unwritten_document [of fresh]
    get_of_unwritten_document [of "fresh\<lparr>faults := [False, False, True]\<rparr>"]
  by (simp add: fresh_def fails_at_def)

section \<open>A backend that does not fail\<close>

lemma reliable_call [simp]: "faults s = [] \<Longrightarrow> call_fails s = (False, s)"
  by (simp add: call_fails_def)

lemma reliable_SetRedisReservations [simp]:
  "faults s = [] \<Longrightarrow> SetRedisReservations l s = (Done l, s\<lparr>reservations_doc := Some l\<rparr>)"
  by (simp add: SetRedisReservations_def rdb_Set_reservations_def)

lemma reliable_SetRedisResources [simp]:
  "faults s = [] \<Longrightarrow> SetRedisResources m s = (Done m, s\<lparr>resources_doc := Some m\<rparr>)"
  by (simp add: SetRedisResources_def rdb_Set_resources_def)

lemma reliable_GetRedisReservations [simp]:
  "faults s = [] \<Longrightarrow>
   GetRedisReservations s =
     (Done (stored_reservations s), s\<lparr>reservations_doc := Some (stored_reservations s)\<rparr>)"
  by (cases "reservations_doc s")
     (simp_all add: GetRedisReservations_def rdb_Get_reservations_def seq_def stored_reservations_def)

lemma reliable_GetRedisResources [simp]:
  "faults s = [] \<Longrightarrow>
   GetRedisResources s =
     (Done (stored_resources s), s\<lparr>resources_doc := Some (stored_resources s)\<rparr>)"
  by (cases "resources_doc s")
     (simp_all add: GetRedisResources_def rdb_Get_resources_def seq_def stored_resources_def)

lemma stored_simps [simp]:
  "stored_reservations (s\<lparr>reservations_doc := Some l\<rparr>) = l"
  "stored_reservations (s\<lparr>resources_doc := d\<rparr>) = stored_reservations s"
  "stored_resources (s\<lparr>resources_doc := Some m\<rparr>) = m"
  "stored_resources (s\<lparr>reservations_doc := d'\<rparr>) = stored_resources s"
  by (simp_all add: stored_reservations_def stored_resources_def)

lemma reliable_GetResource_False:
  "faults s = [] \<Longrightarrow>
   GetResource rk name env False s =
     (Done (map_of (stored_resources s) (rk name env)),
      s\<lparr>resources_doc := Some (stored_resources s)\<rparr>)"
  by (simp add: GetResource_def seq_def ret_def split: option.split)


lemma written_resources:
  "map_of (stored_resources s) k = Some r \<Longrightarrow> s\<lparr>resources_doc := Some (stored_resources s)\<rparr> = s"
  by (cases "resources_doc s") (simp_all add: stored_resources_def)

lemma untouched_simps [simp]:
  "untouched s s"
  "untouched s (s\<lparr>reservations_doc := Some (stored_reservations s)\<rparr>)"
  "untouched s (s\<lparr>resources_doc := Some (stored_resources s)\<rparr>)"
  "untouched s (s\<lparr>reservations_doc := Some (stored_reservations s),
                  resources_doc := Some (stored_resources s)\<rparr>)"
  "untouched s (s\<lparr>resources_doc := Some (stored_resources s),
                  reservations_doc := Some (stored_reservations s)\<rparr>)"
  by (cases "reservations_doc s"; cases "resources_doc s";
      simp add: untouched_def stored_reservations_def stored_resources_def)+


section \<open>Remove\<close>

lemma Remove_scan_found:
  assumes "filter (\<lambda>x. Key rk (Resource x) = Key rk r \<and> ID (User x) = ID u) pre = []"
    and "Key rk (Resource x) = Key rk r" and "ID (User x) = ID u"
  shows "Remove_scan rk u r i pos (pre @ x # post) =
           Some (i + length pre, pos + length (filter (\<lambda>x. Key rk (Resource x) = Key rk r) pre) + 1)"
  using assms
  by (induction pre arbitrary: i pos) (auto split: if_splits)

lemma Remove_scan_None:
  "filter (\<lambda>x. Key rk (Resource x) = Key rk r \<and> ID (User x) = ID u) l = [] \<Longrightarrow>
   Remove_scan rk u r i pos l = None"
  by (induction l arbitrary: i pos) (auto split: if_splits)

lemma Remove_scan_SomeD:
  "Remove_scan rk u r i pos l = Some (idx, p) \<Longrightarrow>
   \<exists>pre x post. l = pre @ x # post \<and> idx = i + length pre
     \<and> filter (\<lambda>x. Key rk (Resource x) = Key rk r \<and> ID (User x) = ID u) pre = []
     \<and> Key rk (Resource x) = Key rk r \<and> ID (User x) = ID u"
proof (induction l arbitrary: i pos)
  case Nil
  then show ?case by simp
next
  case (Cons a l)
  show ?case
  proof (cases "Key rk (Resource a) = Key rk r \<and> ID (User a) = ID u")
    case True
    with Cons.prems have "idx = i" by simp
    with True show ?thesis by (intro exI [of _ "[]"] exI [of _ a] exI [of _ l]) simp
  next
    case False
    with Cons.prems obtain i' pos' where "Remove_scan rk u r i' pos' l = Some (idx, p)" "i' = i + 1"
      by (auto split: if_splits)
    from Cons.IH [OF this(1)] obtain pre x post where
      "l = pre @ x # post" "idx = i' + length pre"
      "filter (\<lambda>x. Key rk (Resource x) = Key rk r \<and> ID (User x) = ID u) pre = []"
      "Key rk (Resource x) = Key rk r" "ID (User x) = ID u" by blast
    with False \<open>i' = i + 1\<close> show ?thesis
      by (intro exI [of _ "a # pre"] exI [of _ x] exI [of _ post]) auto
  qed
qed

lemma stamp_head_found:
  "filter (\<lambda>x. Key rk (Resource x) = Key rk r) pre = [] \<Longrightarrow> Key rk (Resource x) = Key rk r \<Longrightarrow>
   stamp_head rk r t (pre @ x # post) = pre @ x\<lparr>Time := t\<rparr> # post"
  by (induction pre) (auto split: if_splits)

lemma stamp_head_none:
  "filter (\<lambda>x. Key rk (Resource x) = Key rk r) l = [] \<Longrightarrow> stamp_head rk r t l = l"
  by (induction l) (auto split: if_splits)

text \<open>What \<open>Remove\<close> does for a resource that exists, when the backend works.\<close>

lemma Remove_reliable:
  assumes "faults s = []" and "map_of (stored_resources s) (rk name env) = Some r"
  shows "Remove rk u name env t1 t2 s =
     (case Remove_scan rk u r 0 0 (stored_reservations s) of
        None \<Rightarrow> (Done (Inl NotInQueue), s\<lparr>reservations_doc := Some (stored_reservations s)\<rparr>)
      | Some (idx, pos) \<Rightarrow>
          (Done (Inr ()),
           s\<lparr>reservations_doc := Some
               (if pos = 1
                then stamp_head rk r t1 (take idx (stored_reservations s) @ drop (idx + 1) (stored_reservations s))
                else take idx (stored_reservations s) @ drop (idx + 1) (stored_reservations s))\<rparr>))"
  using assms
  by (simp add: Remove_def reliable_GetResource_False seq_def ret_def Let_def written_resources
      split: option.split prod.split)

text \<open>
  Every sequence in which the queue of a key has two or more reservations splits around
  the first two of them.
\<close>

lemma queue_of_two:
  assumes "queue_of rk k l = h # h' # rest"
  shows "\<exists>pre mid post. l = pre @ h # mid @ h' # post
           \<and> queue_of rk k pre = [] \<and> queue_of rk k mid = [] \<and> queue_of rk k post = rest
           \<and> Key rk (Resource h) = k \<and> Key rk (Resource h') = k"
proof -
  from assms obtain pre vs where 1: "l = pre @ h # vs" "queue_of rk k pre = []"
    "Key rk (Resource h) = k" "h' # rest = queue_of rk k vs"
    by (auto simp add: queue_of_def filter_eq_Cons_iff filter_empty_conv)
  from 1(4) obtain mid post where 2: "vs = mid @ h' # post" "queue_of rk k mid = []"
    "Key rk (Resource h') = k" "rest = queue_of rk k post"
    by (auto simp add: queue_of_def Cons_eq_filter_iff filter_empty_conv)
  from 1 2 show ?thesis by blast
qed

text \<open>
  C6. The backend works and the resource exists. First part: the reservations are
  \<open>pre @ h # mid @ h' # post\<close>, where \<open>h\<close> and \<open>h'\<close> are the first two reservations of the
  resource (none in \<open>pre\<close> and \<open>mid\<close>) and \<open>h\<close> is the user's: the queue has two or more
  entries and the user is its head. Then \<open>Remove\<close> succeeds and writes
  \<open>pre @ mid @ h' # post\<close> with the time of \<open>h'\<close>, the new head, set to the clock reading
  \<open>t1\<close> of the removal; every other reservation is written as it was. Second part: the
  reservations are \<open>pre @ x # post\<close>, where \<open>x\<close> is the first reservation of the user for
  the resource and \<open>pre\<close> holds a reservation of the resource: the user is not the head.
  Then \<open>Remove\<close> succeeds and writes \<open>pre @ post\<close>, every other reservation as it was.
\<close>

theorem Remove_promotes_new_head:
  assumes "faults s = []"
    and "map_of (stored_resources s) (rk name env) = Some r"
  shows
    "(stored_reservations s = pre @ h # mid @ h' # post
        \<and> queue_of rk (Key rk r) pre = [] \<and> queue_of rk (Key rk r) mid = []
        \<and> Key rk (Resource h) = Key rk r \<and> ID (User h) = ID u
        \<and> Key rk (Resource h') = Key rk r \<longrightarrow>
      Remove rk u name env t1 t2 s =
        (Done (Inr ()), s\<lparr>reservations_doc := Some (pre @ mid @ h'\<lparr>Time := t1\<rparr> # post)\<rparr>))
   \<and> (stored_reservations s = pre @ x # post
        \<and> queue_of rk (Key rk r) pre \<noteq> []
        \<and> filter (\<lambda>res. ID (User res) = ID u) (queue_of rk (Key rk r) pre) = []
        \<and> Key rk (Resource x) = Key rk r \<and> ID (User x) = ID u \<longrightarrow>
      Remove rk u name env t1 t2 s =
        (Done (Inr ()), s\<lparr>reservations_doc := Some (pre @ post)\<rparr>))"
proof (intro conjI impI; elim conjE)
  assume a: "stored_reservations s = pre @ h # mid @ h' # post"
    "queue_of rk (Key rk r) pre = []" "queue_of rk (Key rk r) mid = []"
    "Key rk (Resource h) = Key rk r" "ID (User h) = ID u" "Key rk (Resource h') = Key rk r"
  have "filter (\<lambda>x. Key rk (Resource x) = Key rk r \<and> ID (User x) = ID u) pre = []"
    using a(2) by (auto simp: queue_of_def filter_empty_conv)
  then have scan: "Remove_scan rk u r 0 0 (stored_reservations s) = Some (length pre, 1)"
    using a by (simp add: Remove_scan_found queue_of_def)
  have "stamp_head rk r t1 ((pre @ mid) @ h' # post) = (pre @ mid) @ h'\<lparr>Time := t1\<rparr> # post"
    using a by (intro stamp_head_found) (simp_all add: queue_of_def)
  then show "Remove rk u name env t1 t2 s =
        (Done (Inr ()), s\<lparr>reservations_doc := Some (pre @ mid @ h'\<lparr>Time := t1\<rparr> # post)\<rparr>)"
    using assms scan a(1) by (simp add: Remove_reliable)
next
  assume a: "stored_reservations s = pre @ x # post"
    "queue_of rk (Key rk r) pre \<noteq> []"
    "filter (\<lambda>res. ID (User res) = ID u) (queue_of rk (Key rk r) pre) = []"
    "Key rk (Resource x) = Key rk r" "ID (User x) = ID u"
  have "filter (\<lambda>x. Key rk (Resource x) = Key rk r \<and> ID (User x) = ID u) pre = []"
    using a(3) by (auto simp: queue_of_def filter_empty_conv)
  then have scan: "Remove_scan rk u r 0 0 (stored_reservations s) =
      Some (length pre, length (queue_of rk (Key rk r) pre) + 1)"
    using a by (simp add: Remove_scan_found queue_of_def)
  have "length (queue_of rk (Key rk r) pre) + 1 \<noteq> 1" using a(2) by simp
  then show "Remove rk u name env t1 t2 s =
        (Done (Inr ()), s\<lparr>reservations_doc := Some (pre @ post)\<rparr>)"
    using assms scan a(1) by (simp add: Remove_reliable)
qed

theorem Remove_promotes_new_head_witness:
  "Remove slashKey alice ''db1'' ''prod'' 30 31 two_queued =
     (Done (Inr ()),
      two_queued\<lparr>reservations_doc := Some [reservation bob ''db1'' ''prod'' 30 21]\<rparr>)
   \<and> Remove slashKey bob ''db1'' ''prod'' 30 31 two_queued =
     (Done (Inr ()),
      two_queued\<lparr>reservations_doc := Some [reservation alice ''db1'' ''prod'' 10 11]\<rparr>)"
  using
    Remove_promotes_new_head [where s = two_queued and rk = slashKey and name = "''db1''"
      and env = "''prod''" and r = "new_resource ''db1'' ''prod''" and u = alice
      and pre = "[]" and h = "reservation alice ''db1'' ''prod'' 10 11" and mid = "[]"
      and h' = "reservation bob ''db1'' ''prod'' 20 21" and post = "[]"
      and ?t1.0 = 30 and ?t2.0 = 31]
    Remove_promotes_new_head [where s = two_queued and rk = slashKey and name = "''db1''"
      and env = "''prod''" and r = "new_resource ''db1'' ''prod''" and u = bob
      and pre = "[reservation alice ''db1'' ''prod'' 10 11]"
      and x = "reservation bob ''db1'' ''prod'' 20 21" and post = "[]"
      and ?t1.0 = 30 and ?t2.0 = 31]
  by (simp add: two_queued_def stored_resources_def stored_reservations_def slashKey_def
      new_resource_def reservation_def queue_of_def Key_def alice_def bob_def)

section \<open>Domain errors\<close>








section \<open>GetPosition\<close>

text \<open>
  The loop of \<open>GetPosition\<close> counts a reservation of the resource before it looks at the
  user: the answer is the number of reservations of the queue before the user's, plus
  one.
\<close>

lemma GetPosition_scan_rank:
  assumes "queue_of rk (Key rk r) l = qpre @ x # qpost"
    and "filter (\<lambda>res. ID (User res) = ID u) qpre = []" and "ID (User x) = ID u"
  shows "GetPosition_scan rk u r pos l = Some (pos + length qpre + 1)"
  using assms
proof (induction l arbitrary: pos qpre)
  case Nil
  then show ?case by (simp add: queue_of_def)
next
  case (Cons a l)
  show ?case
  proof (cases "Key rk (Resource a) = Key rk r")
    case False
    with Cons.prems have "queue_of rk (Key rk r) l = qpre @ x # qpost" by (simp add: queue_of_def)
    from Cons.IH [OF this Cons.prems(2,3)] False show ?thesis by simp
  next
    case True
    then have q: "a # queue_of rk (Key rk r) l = qpre @ x # qpost"
      using Cons.prems(1) by (simp add: queue_of_def)
    show ?thesis
    proof (cases qpre)
      case Nil
      with q Cons.prems True show ?thesis by simp
    next
      case (Cons b qpre')
      with q have 1: "a = b" "queue_of rk (Key rk r) l = qpre' @ x # qpost" by simp_all
      from Cons Cons.prems(2) have 2: "ID (User b) \<noteq> ID u"
        "filter (\<lambda>res. ID (User res) = ID u) qpre' = []" by (simp_all split: if_splits)
      from Cons.IH [OF 1(2) 2(2) Cons.prems(3), of "pos + 1"] True 1 2 Cons show ?thesis by simp
    qed
  qed
qed

lemma GetPosition_rank_plus_one:
  assumes "faults s = []" and "map_of (stored_resources s) (rk name env) = Some r"
    and "queue_of rk (Key rk r) (stored_reservations s) = qpre @ x # qpost"
    and "filter (\<lambda>res. ID (User res) = ID u) qpre = []" and "ID (User x) = ID u"
  shows "fst (GetPosition rk u name env s) = Done (Inr (length qpre + 1))"
  using assms(1,2) GetPosition_scan_rank [OF assms(3,4,5), of 0]
  by (simp add: GetPosition_def reliable_GetResource_False seq_def ret_def)


text \<open>
  C1. The claim says that \<open>GetPosition\<close> returns the zero-based rank, 0 for the holder, and
  0 for bob after alice and bob reserved and alice was removed. In that run the code
  returns 1 for bob; with both in the queue it returns 1 for alice, the holder, and 2
  for bob.
\<close>

theorem GetPosition_is_one_based:
  "fst (GetPosition slashKey bob ''db1'' ''prod''
          (run slashKey [(CallReserve alice ''db1'' ''prod'' 10 11, []),
                         (CallReserve bob ''db1'' ''prod'' 20 21, []),
                         (CallRemove alice ''db1'' ''prod'' 30 31, [])] fresh))
     = Done (Inr 1)
   \<and> fst (GetPosition slashKey alice ''db1'' ''prod'' two_queued) = Done (Inr 1)
   \<and> fst (GetPosition slashKey bob ''db1'' ''prod'' two_queued) = Done (Inr 2)"
  by code_simp

section \<open>Reserve and the last activity\<close>

text \<open>
  C4. The claim says that \<open>Reserve\<close> stamps the last activity of the resource in the
  persisted resources, so that a later read of the resource sees it. The code stamps a
  decoded copy and writes the reservations only: after a reservation at clock readings
  10 and 11 the stored resource still has the zero time as its last activity, and so has
  the resource that \<open>GetResource\<close> reads afterwards. The stamp 11 is found only in the copy
  of the resource inside the new reservation.
\<close>

theorem Reserve_stamp_is_not_persisted:
  "Reserve slashKey alice ''db1'' ''prod'' 10 11 fresh =
     (Done (Inr ()),
      \<lparr>reservations_doc = Some [\<lparr>User = alice,
           Resource = \<lparr>Name = ''db1'', Env = ''prod'', LastActivity = 11\<rparr>, Time = 10\<rparr>],
       resources_doc = Some [(''db1/prod'', \<lparr>Name = ''db1'', Env = ''prod'', LastActivity = 0\<rparr>)],
       faults = []\<rparr>)
   \<and> fst (GetResource slashKey ''db1'' ''prod'' False
             (snd (Reserve slashKey alice ''db1'' ''prod'' 10 11 fresh)))
       = Done (Some \<lparr>Name = ''db1'', Env = ''prod'', LastActivity = 0\<rparr>)"
  by code_simp

section \<open>RemoveResource and RemoveEnv\<close>

text \<open>
  C2. The claim says that \<open>RemoveResource\<close> succeeds and leaves no reservation of the
  removed resource, also when the resource had two or more. With the two reservations
  of alice and bob for db1/prod as the only ones, the call panics (the slice expression
  is out of range at the second step of the loop) and nothing is written. With a third
  reservation, of carol for db2/prod, behind them, the call succeeds, deletes the
  resource db1/prod and keeps bob's reservation for it.
\<close>

theorem RemoveResource_two_reservations:
  "RemoveResource slashKey ''db1'' ''prod''
     (run slashKey [(CallReserve alice ''db1'' ''prod'' 10 11, []),
                    (CallReserve bob ''db1'' ''prod'' 20 21, [])] fresh)
     = (Panic, two_queued)
   \<and> RemoveResource slashKey ''db1'' ''prod''
     (run slashKey [(CallReserve alice ''db1'' ''prod'' 10 11, []),
                    (CallReserve bob ''db1'' ''prod'' 20 21, []),
                    (CallReserve carol ''db2'' ''prod'' 30 31, [])] fresh)
     = (Done (Inr ()),
        \<lparr>reservations_doc = Some [reservation bob ''db1'' ''prod'' 20 21,
                                   reservation carol ''db2'' ''prod'' 30 31],
         resources_doc = Some [(''db2/prod'', new_resource ''db2'' ''prod'')],
         faults = []\<rparr>)"
  by code_simp


text \<open>
  C3. The claim says that \<open>RemoveEnv\<close> deletes every reservation whose resource is of the
  env, also when two or more are. With db1 and db2 in staging, db3 in prod and one
  reservation for each, the call returns success, deletes both staging resources and
  keeps bob's reservation for db2/staging. With the two staging reservations only, the
  call panics.
\<close>

theorem RemoveEnv_two_reservations:
  "RemoveEnv [] ''staging''
     (run slashKey [(CallReserve alice ''db1'' ''staging'' 10 11, []),
                    (CallReserve bob ''db2'' ''staging'' 20 21, []),
                    (CallReserve carol ''db3'' ''prod'' 30 31, [])] fresh)
     = (Done (Inr ()),
        \<lparr>reservations_doc = Some [reservation bob ''db2'' ''staging'' 20 21,
                                   reservation carol ''db3'' ''prod'' 30 31],
         resources_doc = Some [(''db3/prod'', new_resource ''db3'' ''prod'')],
         faults = []\<rparr>)
   \<and> fst (RemoveEnv [] ''staging''
     (run slashKey [(CallReserve alice ''db1'' ''staging'' 10 11, []),
                    (CallReserve bob ''db2'' ''staging'' 20 21, [])] fresh))
     = Panic"
  by code_simp


section \<open>The deleting loop\<close>

lemma delete_step_DoneD:
  assumes "delete_step P idx st = Done (arr', n', hit')"
  shows "\<exists>arr n hit. st = Done (arr, n, hit) \<and>
     (if P (arr ! idx)
      then idx + 1 \<le> n \<and> arr' = take idx arr @ drop (idx + 1) (take n arr) @ drop (n - 1) arr
           \<and> n' = n - 1 \<and> hit'
      else arr' = arr \<and> n' = n \<and> hit' = hit)"
proof (cases st)
  case Panic
  with assms show ?thesis by (simp add: delete_step_def)
next
  case (Done t)
  obtain arr n hit where "t = (arr, n, hit)" by (cases t)
  with Done assms show ?thesis by (auto simp add: delete_step_def split: if_splits)
qed

lemma take_prefix: "length xs = k \<Longrightarrow> take k (xs @ ys) = xs"
  by simp

lemma shift_take:
  assumes "idx + 1 \<le> n" "n \<le> length arr"
  shows "take (n - 1) (take idx arr @ drop (idx + 1) (take n arr) @ drop (n - 1) arr)
          = take idx arr @ drop (idx + 1) (take n arr)"
    and "take n arr = take idx arr @ arr ! idx # drop (idx + 1) (take n arr)"
    and "length (take idx arr @ drop (idx + 1) (take n arr) @ drop (n - 1) arr) = length arr"
proof -
  from assms have i: "idx < n" "idx < length arr" by simp_all
  have len: "length (take idx arr @ drop (idx + 1) (take n arr)) = n - 1"
    using assms by simp
  show "take (n - 1) (take idx arr @ drop (idx + 1) (take n arr) @ drop (n - 1) arr)
          = take idx arr @ drop (idx + 1) (take n arr)"
    using take_prefix [OF len, of "drop (n - 1) arr"] by (simp only: append_assoc)
  have "take n arr = take idx (take n arr) @ (take n arr) ! idx # drop (Suc idx) (take n arr)"
    using i assms by (intro id_take_nth_drop) simp
  then show "take n arr = take idx arr @ arr ! idx # drop (idx + 1) (take n arr)"
    using i by (simp add: min_def)
  show "length (take idx arr @ drop (idx + 1) (take n arr) @ drop (n - 1) arr) = length arr"
    using assms by simp
qed

text \<open>
  The invariant of the loop: the backing array keeps its length, and the current slice
  is the original sequence with some matching reservations left out.
\<close>

lemma delete_fold_inv:
  "k \<le> length l \<Longrightarrow>
   fold (delete_step P) [0..<k] (Done (l, length l, False)) = Done (arr, n, hit) \<Longrightarrow>
   length arr = length l \<and> n \<le> length l \<and> subseq (take n arr) l
     \<and> filter (\<lambda>x. \<not> P x) (take n arr) = filter (\<lambda>x. \<not> P x) l"
proof (induction k arbitrary: arr n hit)
  case 0
  then show ?case by auto
next
  case (Suc k)
  from Suc.prems(2) have "delete_step P k (fold (delete_step P) [0..<k] (Done (l, length l, False)))
      = Done (arr, n, hit)" by simp
  from delete_step_DoneD [OF this] obtain arr0 n0 hit0 where
    prev: "fold (delete_step P) [0..<k] (Done (l, length l, False)) = Done (arr0, n0, hit0)"
    and step: "if P (arr0 ! k)
      then k + 1 \<le> n0 \<and> arr = take k arr0 @ drop (k + 1) (take n0 arr0) @ drop (n0 - 1) arr0
           \<and> n = n0 - 1 \<and> hit
      else arr = arr0 \<and> n = n0 \<and> hit = hit0" by blast
  from Suc.prems(1) have "k \<le> length l" by simp
  from Suc.IH [OF this prev] have ih: "length arr0 = length l" "n0 \<le> length l"
    "subseq (take n0 arr0) l" "filter (\<lambda>x. \<not> P x) (take n0 arr0) = filter (\<lambda>x. \<not> P x) l"
    by simp_all
  show ?case
  proof (cases "P (arr0 ! k)")
    case False
    with step ih show ?thesis by simp
  next
    case True
    with step have s: "k + 1 \<le> n0" "arr = take k arr0 @ drop (k + 1) (take n0 arr0) @ drop (n0 - 1) arr0"
      "n = n0 - 1" by simp_all
    have n0: "n0 \<le> length arr0" using ih by simp
    note sh = shift_take [OF s(1) n0]
    have t: "take n arr = take k arr0 @ drop (k + 1) (take n0 arr0)"
      using sh(1) s by simp
    have "subseq (take n arr) (take n0 arr0)"
      unfolding t by (subst (2) sh(2)) (simp add: subseq_append' list_emb_Cons)
    then have 1: "subseq (take n arr) l" using ih(3) by (rule subseq_order.order_trans)
    have 2: "filter (\<lambda>x. \<not> P x) (take n arr) = filter (\<lambda>x. \<not> P x) l"
      unfolding t ih(4) [symmetric] by (subst (2) sh(2)) (simp add: True)
    from 1 2 sh(3) s ih show ?thesis by simp
  qed
qed

lemma delete_in_range_DoneD:
  assumes "delete_in_range P l = Done (l', hit)"
  shows "subseq l' l" and "filter (\<lambda>x. \<not> P x) l' = filter (\<lambda>x. \<not> P x) l"
proof -
  from assms obtain arr n where
    f: "fold (delete_step P) [0..<length l] (Done (l, length l, False)) = Done (arr, n, hit)"
    and l': "l' = take n arr"
    by (auto simp add: delete_in_range_def split: exec.splits)
  from delete_fold_inv [OF order_refl f] l'
  show "subseq l' l" and "filter (\<lambda>x. \<not> P x) l' = filter (\<lambda>x. \<not> P x) l"
    by simp_all
qed



section \<open>Pruning\<close>

text \<open>The threshold is the clock reading minus the hours, unless the product wraps around.\<close>

lemma sint_word_of_int_64:
  assumes "- (2 ^ 63) \<le> x" "x < 2 ^ 63"
  shows "sint (word_of_int x :: 64 word) = x"
proof -
  have "signed_take_bit 63 x = x" using assms by (rule signed_take_bit_int_eq_self)
  then show ?thesis by (simp add: signed_of_int)
qed

lemma oldestTime_in_range:
  assumes "- (2 ^ 63) \<le> - hours * 3600000000000" "- hours * 3600000000000 < 2 ^ 63"
  shows "oldestTime now hours = now - hours * 3600000000000"
proof -
  have "- (word_of_int hours :: 64 word) * 3600000000000 = word_of_int (- hours * 3600000000000)"
    by simp
  then have "oldestTime now hours = now + sint (word_of_int (- hours * 3600000000000) :: 64 word)"
    by (simp only: oldestTime_def)
  also have "\<dots> = now + (- hours * 3600000000000)"
    by (simp only: sint_word_of_int_64 [OF assms])
  finally show ?thesis by simp
qed



















section \<open>The invariant of the store\<close>

subsection \<open>Rules\<close>

lemma keeps_ret: "F x \<Longrightarrow> keeps rk (ret x) F"
  by (simp add: keeps_def ret_def)

lemma keeps_panic: "keeps rk panic F"
  by (simp add: keeps_def panic_def)

lemma keeps_seq:
  assumes "keeps rk m G" and "\<And>x. G x \<Longrightarrow> keeps rk (f x) F"
  shows "keeps rk (seq m f) F"
  unfolding keeps_def
proof (intro allI impI)
  fix s assume s: "store_inv rk s"
  obtain x s' where m: "m s = (x, s')" by (cases "m s")
  from assms(1) s m have s': "store_inv rk s'" and x: "\<And>y. x = Done y \<Longrightarrow> G y"
    by (auto simp add: keeps_def)
  show "store_inv rk (snd (seq m f s)) \<and> (\<forall>x. fst (seq m f s) = Done x \<longrightarrow> F x)"
  proof (cases x)
    case Panic
    with m s' show ?thesis by (simp add: seq_def)
  next
    case (Done y)
    from x [OF Done] have "keeps rk (f y) F" by (rule assms(2))
    with s' have "store_inv rk (snd (f y s')) \<and> (\<forall>x. fst (f y s') = Done x \<longrightarrow> F x)"
      by (simp add: keeps_def)
    with m Done show ?thesis by (simp add: seq_def)
  qed
qed

lemma keeps_weaken: "keeps rk m G \<Longrightarrow> (\<And>x. G x \<Longrightarrow> F x) \<Longrightarrow> keeps rk m F"
  by (simp add: keeps_def)

lemma store_inv_simps [simp]:
  "store_inv rk (s\<lparr>faults := fs\<rparr>) = store_inv rk s"
  "store_inv rk (s\<lparr>reservations_doc := Some l\<rparr>)
     = (single_membership rk l \<and> resources_ok rk (stored_resources s))"
  "store_inv rk (s\<lparr>resources_doc := Some m\<rparr>)
     = (single_membership rk (stored_reservations s) \<and> resources_ok rk m)"
  by (simp_all add: store_inv_def stored_reservations_def stored_resources_def)

lemma call_fails_inv: "call_fails s = (f, s') \<Longrightarrow> store_inv rk s' = store_inv rk s"
  by (auto simp add: call_fails_def split: list.splits)

lemma call_fails_docs:
  "call_fails s = (f, s') \<Longrightarrow> reservations_doc s' = reservations_doc s \<and> resources_doc s' = resources_doc s"
  by (auto simp add: call_fails_def split: list.splits)

lemma single_Nil [simp]: "single_membership rk []"
  by (simp add: single_membership_def)

lemma resources_ok_Nil [simp]: "resources_ok rk []"
  by (simp add: resources_ok_def well_keyed_def unstamped_def)

lemma keeps_SetRedisReservations:
  "single_membership rk l \<Longrightarrow> keeps rk (SetRedisReservations l) (\<lambda>_. True)"
  unfolding keeps_def SetRedisReservations_def rdb_Set_reservations_def
  by (auto simp add: store_inv_def dest: call_fails_inv split: prod.splits)


lemma keeps_SetRedisResources:
  "resources_ok rk m \<Longrightarrow> keeps rk (SetRedisResources m) (\<lambda>_. True)"
  unfolding keeps_def SetRedisResources_def rdb_Set_resources_def
  by (auto simp add: store_inv_def dest: call_fails_inv split: prod.splits)

lemma rdb_Get_reservations_cases:
  assumes "rdb_Get_reservations s = (x, s')"
  shows "store_inv rk s' = store_inv rk s"
    and "x = Some l \<Longrightarrow> stored_reservations s = l"
  using assms
  by (auto simp add: rdb_Get_reservations_def stored_reservations_def
      dest: call_fails_inv call_fails_docs split: prod.splits if_splits)

lemma rdb_Get_resources_cases:
  assumes "rdb_Get_resources s = (x, s')"
  shows "store_inv rk s' = store_inv rk s"
    and "x = Some m \<Longrightarrow> stored_resources s = m"
  using assms
  by (auto simp add: rdb_Get_resources_def stored_resources_def
      dest: call_fails_inv call_fails_docs split: prod.splits if_splits)

lemma keeps_second_get_reservations:
  "keeps rk (\<lambda>s2. case rdb_Get_reservations s2 of
                     (Some str, s3) \<Rightarrow> (Done str, s3)
                   | (None, s3) \<Rightarrow> (Panic, s3)) (single_membership rk)"
  unfolding keeps_def
proof (intro allI impI)
  fix s assume s: "store_inv rk s"
  obtain x s' where g: "rdb_Get_reservations s = (x, s')" by (cases "rdb_Get_reservations s")
  from rdb_Get_reservations_cases [OF g] s
  have "store_inv rk s'" "\<And>l. x = Some l \<Longrightarrow> single_membership rk l"
    by (auto simp add: store_inv_def)
  with g show "store_inv rk (snd (case rdb_Get_reservations s of
                     (Some str, s3) \<Rightarrow> (Done str, s3)
                   | (None, s3) \<Rightarrow> (Panic, s3)))
       \<and> (\<forall>x. fst (case rdb_Get_reservations s of
                     (Some str, s3) \<Rightarrow> (Done str, s3)
                   | (None, s3) \<Rightarrow> (Panic, s3)) = Done x \<longrightarrow> single_membership rk x)"
    by (cases x) auto
qed

lemma keeps_GetRedisReservations: "keeps rk GetRedisReservations (single_membership rk)"
  unfolding keeps_def
proof (intro allI impI)
  fix s assume s: "store_inv rk s"
  obtain x s1 where g: "rdb_Get_reservations s = (x, s1)" by (cases "rdb_Get_reservations s")
  from rdb_Get_reservations_cases [OF g] s
  have s1: "store_inv rk s1" and x: "\<And>l. x = Some l \<Longrightarrow> single_membership rk l"
    by (auto simp add: store_inv_def)
  show "store_inv rk (snd (GetRedisReservations s))
       \<and> (\<forall>x. fst (GetRedisReservations s) = Done x \<longrightarrow> single_membership rk x)"
  proof (cases x)
    case (Some l)
    with g s1 x show ?thesis by (simp add: GetRedisReservations_def)
  next
    case None
    have "keeps rk (seq (SetRedisReservations [])
            (\<lambda>_ s2. case rdb_Get_reservations s2 of
                       (Some str, s3) \<Rightarrow> (Done str, s3)
                     | (None, s3) \<Rightarrow> (Panic, s3))) (single_membership rk)"
      by (rule keeps_seq [OF keeps_SetRedisReservations [OF single_Nil] keeps_second_get_reservations])
    with s1 g None show ?thesis by (simp add: GetRedisReservations_def keeps_def)
  qed
qed

lemma keeps_second_get_resources:
  "keeps rk (\<lambda>s2. case rdb_Get_resources s2 of
                     (Some str, s3) \<Rightarrow> (Done str, s3)
                   | (None, s3) \<Rightarrow> (Panic, s3)) (resources_ok rk)"
  unfolding keeps_def
proof (intro allI impI)
  fix s assume s: "store_inv rk s"
  obtain x s' where g: "rdb_Get_resources s = (x, s')" by (cases "rdb_Get_resources s")
  from rdb_Get_resources_cases [OF g] s
  have "store_inv rk s'" "\<And>l. x = Some l \<Longrightarrow> resources_ok rk l"
    by (auto simp add: store_inv_def)
  with g show "store_inv rk (snd (case rdb_Get_resources s of
                     (Some str, s3) \<Rightarrow> (Done str, s3)
                   | (None, s3) \<Rightarrow> (Panic, s3)))
       \<and> (\<forall>x. fst (case rdb_Get_resources s of
                     (Some str, s3) \<Rightarrow> (Done str, s3)
                   | (None, s3) \<Rightarrow> (Panic, s3)) = Done x \<longrightarrow> resources_ok rk x)"
    by (cases x) auto
qed

lemma keeps_GetRedisResources: "keeps rk GetRedisResources (resources_ok rk)"
  unfolding keeps_def
proof (intro allI impI)
  fix s assume s: "store_inv rk s"
  obtain x s1 where g: "rdb_Get_resources s = (x, s1)" by (cases "rdb_Get_resources s")
  from rdb_Get_resources_cases [OF g] s
  have s1: "store_inv rk s1" and x: "\<And>l. x = Some l \<Longrightarrow> resources_ok rk l"
    by (auto simp add: store_inv_def)
  show "store_inv rk (snd (GetRedisResources s))
       \<and> (\<forall>x. fst (GetRedisResources s) = Done x \<longrightarrow> resources_ok rk x)"
  proof (cases x)
    case (Some l)
    with g s1 x show ?thesis by (simp add: GetRedisResources_def)
  next
    case None
    have "keeps rk (seq (SetRedisResources [])
            (\<lambda>_ s2. case rdb_Get_resources s2 of
                       (Some str, s3) \<Rightarrow> (Done str, s3)
                     | (None, s3) \<Rightarrow> (Panic, s3))) (resources_ok rk)"
      by (rule keeps_seq [OF keeps_SetRedisResources [OF resources_ok_Nil] keeps_second_get_resources])
    with s1 g None show ?thesis by (simp add: GetRedisResources_def keeps_def)
  qed
qed


lemma keeps_case_option:
  "(r = None \<Longrightarrow> keeps rk a F) \<Longrightarrow> (\<And>v. r = Some v \<Longrightarrow> keeps rk (b v) F) \<Longrightarrow>
   keeps rk (case r of None \<Rightarrow> a | Some v \<Rightarrow> b v) F"
  by (cases r) simp_all

lemma keeps_case_sum:
  "(\<And>e. q = Inl e \<Longrightarrow> keeps rk (a e) F) \<Longrightarrow> (\<And>v. q = Inr v \<Longrightarrow> keeps rk (b v) F) \<Longrightarrow>
   keeps rk (case q of Inl e \<Rightarrow> a e | Inr v \<Rightarrow> b v) F"
  by (cases q) simp_all

lemma keeps_case_exec:
  "(r = Panic \<Longrightarrow> keeps rk a F) \<Longrightarrow> (\<And>v. r = Done v \<Longrightarrow> keeps rk (b v) F) \<Longrightarrow>
   keeps rk (case r of Panic \<Rightarrow> a | Done v \<Rightarrow> b v) F"
  by (cases r) simp_all

lemma keeps_case_prod:
  "(\<And>x y. p = (x, y) \<Longrightarrow> keeps rk (f x y) F) \<Longrightarrow> keeps rk (case p of (x, y) \<Rightarrow> f x y) F"
  by (cases p) simp

lemma keeps_if:
  "(c \<Longrightarrow> keeps rk a F) \<Longrightarrow> (\<not> c \<Longrightarrow> keeps rk b F) \<Longrightarrow> keeps rk (if c then a else b) F"
  by simp

lemmas keeps_intros =
  keeps_seq keeps_ret keeps_panic keeps_case_option keeps_case_sum keeps_case_exec
  keeps_case_prod keeps_if keeps_GetRedisReservations keeps_GetRedisResources
  keeps_SetRedisReservations keeps_SetRedisResources

subsection \<open>Sequences and maps that keep the invariant\<close>

lemma Key_LastActivity [simp]: "Key rk (r\<lparr>LastActivity := t\<rparr>) = Key rk r"
  by (simp add: Key_def)

lemma resources_ok_update:
  assumes "resources_ok rk m" "LastActivity r = 0"
  shows "resources_ok rk (AList.update (Key rk r) r m)"
proof -
  have "list_all P (AList.update k v al)" if "list_all P al" "P (k, v)"
    for P :: "string \<times> Resource \<Rightarrow> bool" and k v al
    using that by (induction al) auto
  with assms show ?thesis
    by (simp add: resources_ok_def well_keyed_def unstamped_def distinct_update)
qed

lemma resources_ok_delete:
  assumes "resources_ok rk m"
  shows "resources_ok rk (AList.delete k m)"
proof -
  have "set (AList.delete k m) \<subseteq> set m" by (auto simp add: AList.delete_eq)
  moreover have "distinct (map fst (AList.delete k m))"
    using assms by (simp add: resources_ok_def well_keyed_def distinct_delete)
  ultimately show ?thesis
    using assms by (auto simp add: resources_ok_def well_keyed_def unstamped_def list_all_iff)
qed

lemma resources_ok_fold_delete:
  "resources_ok rk m \<Longrightarrow>
   resources_ok rk (fst (fold (\<lambda>(k, res) (m, h). if Env res = env then (AList.delete k m, True) else (m, h)) xs (m, h)))"
  by (induction xs arbitrary: m h) (auto simp add: resources_ok_delete split: prod.splits)

lemma resources_ok_delete_env:
  "resources_ok rk m \<Longrightarrow> delete_env env m h = (m', h') \<Longrightarrow> resources_ok rk m'"
  using resources_ok_fold_delete [of rk m env m h] by (simp add: delete_env_def)

lemma single_subseq:
  assumes "subseq l' l" "single_membership rk l"
  shows "single_membership rk l'"
proof -
  let ?f = "\<lambda>res. (ID (User res), Key rk (Resource res))"
  from assms(1) have "subseq (map ?f l') (map ?f l)" by (rule subseq_map)
  then obtain N where "map ?f l' = nths (map ?f l) N" by (auto simp add: subseq_conv_nths)
  with assms(2) show ?thesis by (simp add: single_membership_def)
qed

lemma single_append:
  assumes "single_membership rk l"
    and "\<not> list_ex (\<lambda>res. ID (User res) = ID u \<and> Key rk (Resource res) = Key rk r) l"
  shows "single_membership rk (l @ [\<lparr>User = u, Resource = r\<lparr>LastActivity := t2\<rparr>, Time = t1\<rparr>])"
  using assms by (auto simp add: single_membership_def list_ex_iff)

lemma stamp_head_keys:
  "map (\<lambda>res. (ID (User res), Key rk (Resource res))) (stamp_head rk r t l)
     = map (\<lambda>res. (ID (User res), Key rk (Resource res))) l"
  by (induction l) auto

lemma single_stamp_head:
  "single_membership rk l \<Longrightarrow> single_membership rk (stamp_head rk r t l)"
  by (simp add: single_membership_def stamp_head_keys)

lemma subseq_remove_nth: "subseq (take i l @ drop (i + 1) l) l"
proof (cases "i < length l")
  case True
  then have "l = take i l @ l ! i # drop (Suc i) l" by (rule id_take_nth_drop)
  moreover have "subseq (take i l @ drop (Suc i) l) (take i l @ l ! i # drop (Suc i) l)"
    by (simp add: subseq_append' list_emb_Cons)
  ultimately show ?thesis by simp
next
  case False
  then show ?thesis by simp
qed


subsection \<open>Every operation keeps the invariant\<close>

lemma single_remove_nth:
  "single_membership rk l \<Longrightarrow> single_membership rk (take i l @ drop (Suc i) l)"
  using single_subseq [OF subseq_remove_nth [of i l]] by simp

lemma keeps_GetResource: "keeps rk (GetResource rk name env create) (\<lambda>_. True)"
  unfolding GetResource_def Let_def
  by ((rule keeps_intros TrueI | assumption | simp add: resources_ok_update)+)

lemma keeps_Create: "keeps rk (Create rk name env now) (\<lambda>_. True)"
  unfolding Create_def Let_def
  by ((rule keeps_intros keeps_GetResource TrueI | assumption)+)

lemma keeps_Reserve: "keeps rk (Reserve rk u name env t1 t2) (\<lambda>_. True)"
  unfolding Reserve_def Let_def
  by ((rule keeps_intros keeps_GetResource TrueI | assumption | simp add: single_append)+)

lemma keeps_GetReservation: "keeps rk (GetReservation rk u name env) (\<lambda>_. True)"
  unfolding GetReservation_def
  by ((rule keeps_intros keeps_GetResource TrueI | assumption)+)

lemma keeps_Remove: "keeps rk (Remove rk u name env t1 t2) (\<lambda>_. True)"
  unfolding Remove_def Let_def
  by ((rule keeps_intros keeps_GetResource TrueI | assumption | simp add: single_stamp_head single_remove_nth)+)

lemma keeps_GetPosition: "keeps rk (GetPosition rk u name env) (\<lambda>_. True)"
  unfolding GetPosition_def
  by ((rule keeps_intros keeps_GetResource TrueI | assumption)+)

lemma keeps_RemoveResource: "keeps rk (RemoveResource rk name env) (\<lambda>_. True)"
  unfolding RemoveResource_def
  by ((rule keeps_intros keeps_GetResource TrueI | assumption | auto intro: single_subseq resources_ok_delete dest: delete_in_range_DoneD(1))+)

lemma keeps_RemoveEnv: "keeps rk (RemoveEnv name env) (\<lambda>_. True)"
  unfolding RemoveEnv_def
  by ((rule keeps_intros TrueI | assumption | auto intro: single_subseq resources_ok_delete_env dest: delete_in_range_DoneD(1))+)

lemma keeps_GetResources: "keeps rk GetResources (\<lambda>_. True)"
  unfolding GetResources_def Let_def
  by ((rule keeps_intros TrueI | assumption)+)

lemma keeps_GetResourcesForEnv: "keeps rk (GetResourcesForEnv env) (\<lambda>_. True)"
  unfolding GetResourcesForEnv_def Let_def
  by ((rule keeps_intros TrueI | assumption)+)

lemma keeps_GetQueueForResource: "keeps rk (GetQueueForResource rk name env) (\<lambda>_. True)"
  unfolding GetQueueForResource_def
  by ((rule keeps_intros keeps_GetResource TrueI | assumption)+)

lemma keeps_GetQueues_loop: "keeps rk (GetQueues_loop rk rs acc) (\<lambda>_. True)"
  by (induction rs arbitrary: acc) (auto intro!: keeps_intros keeps_GetQueueForResource)

lemma keeps_GetQueues: "keeps rk (GetQueues rk) (\<lambda>_. True)"
  unfolding GetQueues_def
  by ((rule keeps_seq [OF keeps_GetResources] keeps_GetQueues_loop TrueI | assumption)+)

lemma keeps_GetQueuesForEnv_loop: "keeps rk (GetQueuesForEnv_loop rk rs acc) (\<lambda>_. True)"
  by (induction rs arbitrary: acc) (auto intro!: keeps_intros keeps_GetQueueForResource)

lemma keeps_GetQueuesForEnv: "keeps rk (GetQueuesForEnv rk env) (\<lambda>_. True)"
  unfolding GetQueuesForEnv_def
  by ((rule keeps_seq [OF keeps_GetResourcesForEnv] keeps_GetQueuesForEnv_loop TrueI | assumption)+)

lemma keeps_GetReservationForResource:
  "keeps rk (GetReservationForResource rk name env) (\<lambda>_. True)"
  unfolding GetReservationForResource_def
  by ((rule keeps_intros keeps_GetResource TrueI | assumption)+)

lemma keeps_GetAllUsersInQueues: "keeps rk GetAllUsersInQueues (\<lambda>_. True)"
  unfolding GetAllUsersInQueues_def Let_def
  by ((rule keeps_intros TrueI | assumption)+)

lemma keeps_ClearQueueForResource: "keeps rk (ClearQueueForResource rk name env now) (\<lambda>_. True)"
  unfolding ClearQueueForResource_def Let_def
  by ((rule keeps_intros keeps_GetResource TrueI | assumption | simp add: single_subseq [OF subseq_filter_left])+)

lemma keeps_Prune_loop: "keeps rk (Prune_loop rk oldest rs) (\<lambda>_. True)"
  by (induction rs)
     (auto intro!: keeps_intros keeps_GetQueueForResource keeps_RemoveResource)

lemma keeps_PruneInactiveResources: "keeps rk (PruneInactiveResources rk hours now) (\<lambda>_. True)"
  unfolding PruneInactiveResources_def
  by ((rule keeps_intros keeps_GetResources keeps_Prune_loop TrueI | assumption)+)


lemma keepsD: "keeps rk m F \<Longrightarrow> store_inv rk s \<Longrightarrow> store_inv rk (snd (m s))"
  by (simp add: keeps_def)

lemma after_inv: "store_inv rk s \<Longrightarrow> store_inv rk (after rk c s)"
  by (cases c)
     (simp_all add:
        keepsD [OF keeps_GetResource] keepsD [OF keeps_Create]
        keepsD [OF keeps_Reserve] keepsD [OF keeps_GetReservation]
        keepsD [OF keeps_Remove] keepsD [OF keeps_GetPosition]
        keepsD [OF keeps_RemoveResource] keepsD [OF keeps_RemoveEnv]
        keepsD [OF keeps_GetResources] keepsD [OF keeps_GetResourcesForEnv]
        keepsD [OF keeps_GetQueueForResource] keepsD [OF keeps_GetQueues]
        keepsD [OF keeps_GetQueuesForEnv] keepsD [OF keeps_GetReservationForResource]
        keepsD [OF keeps_GetAllUsersInQueues] keepsD [OF keeps_ClearQueueForResource]
        keepsD [OF keeps_PruneInactiveResources])

lemma run_inv: "store_inv rk s \<Longrightarrow> store_inv rk (run rk cs s)"
proof (induction cs arbitrary: s)
  case Nil
  then show ?case by simp
next
  case (Cons c cs)
  obtain cl fs where c: "c = (cl, fs)" by (cases c)
  from Cons.prems have "store_inv rk (after rk cl (s\<lparr>faults := fs\<rparr>))"
    by (intro after_inv) simp
  from Cons.IH [OF this] c show ?case by simp
qed

lemma fresh_inv: "store_inv rk fresh"
  by (simp add: store_inv_def fresh_def stored_reservations_def stored_resources_def)

lemma reachable_inv: "store_inv rk (run rk cs fresh)"
  by (rule run_inv [OF fresh_inv])




lemma no_stamp_is_persisted:
  "list_all (\<lambda>(k, r). LastActivity r = 0) (stored_resources (run rk cs fresh))"
  using reachable_inv [of rk cs] by (simp add: store_inv_def resources_ok_def unstamped_def)

lemma reachable_well_keyed: "well_keyed rk (stored_resources (run rk cs fresh))"
  using reachable_inv [of rk cs] by (simp add: store_inv_def resources_ok_def)





end
